theory Spec2Isabelle
  imports Complex_Main "HOL-Library.Word"
begin

unbundle bit_operations_syntax

section \<open>The RAPPOR client encoder (encoder.cc)\<close>

text \<open>
  A shallow embedding of \<^verbatim>\<open>src/encoder.cc\<close>: the constructor's parameter checks,
  \<^verbatim>\<open>MakeBloomFilter\<close>, \<^verbatim>\<open>GetPrrMasks\<close>, \<^verbatim>\<open>_EncodeInternal\<close> and \<^verbatim>\<open>Encode\<close>.
\<close>

subsection \<open>Data\<close>

type_synonym byte = "8 word"

text \<open>A \<^verbatim>\<open>std::string\<close> and a \<^verbatim>\<open>std::vector<uint8_t>\<close> are both sequences of bytes.\<close>

type_synonym bytes = "byte list"

text \<open>
  Modelled from the spec: the header \<^verbatim>\<open>encoder.h\<close> with the typedef of \<^verbatim>\<open>Bits\<close> is
  not among the sources. The spec describes \<^verbatim>\<open>Bits\<close> as a fixed-width unsigned integer
  used for widths up to 32, and \<^verbatim>\<open>kMaxBits\<close> is 32: an unsigned 32-bit integer.
\<close>

type_synonym Bits = "32 word"

text \<open>
  A C++ \<^verbatim>\<open>float\<close>: a finite value, an infinity or a NaN. The finite values are a subset
  of the reals; the code compares a probability with \<^verbatim>\<open>0.0f\<close> and \<^verbatim>\<open>1.0f\<close> and
  multiplies it by 128 (a power of two, so the product of a finite float that does not
  overflow is exact), and every statement below holds for every real, hence for every
  finite float. Every comparison with a NaN is false.
\<close>

datatype cfloat = FVal real | FPosInf | FNegInf | FNaN

fun float_le :: "cfloat \<Rightarrow> cfloat \<Rightarrow> bool" where
  "float_le FNaN _ = False"
| "float_le _ FNaN = False"
| "float_le (FVal a) (FVal b) = (a \<le> b)"
| "float_le FNegInf _ = True"
| "float_le _ FPosInf = True"
| "float_le FPosInf _ = False"
| "float_le (FVal a) FNegInf = False"

fun float_gt :: "cfloat \<Rightarrow> cfloat \<Rightarrow> bool" where
  "float_gt FNaN _ = False"
| "float_gt _ FNaN = False"
| "float_gt a b = (\<not> float_le a b)"

text \<open>\<^verbatim>\<open>prob * 128\<close>: the int 128 is converted to float, the product is a float.\<close>

fun float_times_128 :: "cfloat \<Rightarrow> cfloat" where
  "float_times_128 (FVal r) = FVal (r * 128)"
| "float_times_128 x = x"

text \<open>
  \<^verbatim>\<open>static_cast<uint8_t>(x)\<close> of a float truncates towards zero; the behaviour is
  undefined when the truncated value is not representable in \<^verbatim>\<open>uint8_t\<close> (so also for a
  NaN and for the infinities): that is \<open>None\<close>.
\<close>

definition trunc_toward_zero :: "real \<Rightarrow> int" where
  "trunc_toward_zero r = (if 0 \<le> r then \<lfloor>r\<rfloor> else \<lceil>r\<rceil>)"

fun float_to_uint8 :: "cfloat \<Rightarrow> byte option" where
  "float_to_uint8 (FVal r) =
     (let t = trunc_toward_zero r
      in if 0 \<le> t \<and> t \<le> 255 then Some (word_of_int t) else None)"
| "float_to_uint8 _ = None"

text \<open>
  Modelled from the spec: \<^verbatim>\<open>Params\<close> and \<^verbatim>\<open>Deps\<close> are declared in headers that are
  not among the sources. The fields are the ones \<^verbatim>\<open>encoder.cc\<close> reads, with the types
  of the spec's data model. The three counts and the cohort are C \<^verbatim>\<open>int\<close>s (the tests
  pass -1, the log format is \<^verbatim>\<open>%d\<close>); the code only compares them, takes
  \<^verbatim>\<open>cohort & 0xFF\<close> and counts up to them, so no arithmetic on them can overflow and
  they are modelled as \<open>int\<close>.
\<close>

record Params =
  num_bits :: int
  num_hashes :: int
  num_cohorts :: int
  prob_f :: cfloat
  prob_p :: cfloat
  prob_q :: cfloat

text \<open>
  The injected capabilities. \<^verbatim>\<open>hash_func_(input, &output)\<close> and
  \<^verbatim>\<open>hmac_func_(secret, value, &output)\<close> fill a byte vector; the code ignores what they
  return. \<^verbatim>\<open>irr_rand_.GetMask(prob, num_bits, &mask)\<close> draws a mask from a source of
  randomness with a state of its own (type \<open>'r\<close>): it returns the state after the draw and
  the mask, or \<open>None\<close> where \<^verbatim>\<open>GetMask\<close> returns false.
\<close>

record 'r Deps =
  cohort :: int
  hash_func :: "bytes \<Rightarrow> bytes"
  client_secret :: bytes
  hmac_func :: "bytes \<Rightarrow> bytes \<Rightarrow> bytes"
  irr_rand_GetMask :: "'r \<Rightarrow> cfloat \<Rightarrow> int \<Rightarrow> Bits option \<times> 'r"

record 'r Encoder =
  encoder_id :: string
  params :: Params
  deps :: "'r Deps"

definition kMaxBits :: int where
  "kMaxBits = 32"

definition kMaxHashes :: int where
  "kMaxHashes = 16"

subsection \<open>Construction\<close>

text \<open>
  Every failed check logs a message and runs \<^verbatim>\<open>assert(false)\<close>, which ends the process:
  the fault names the first check that fails, in the order of the source.
\<close>

datatype config_fault =
    NumBitsNotPositive
  | NumHashesNotPositive
  | NumCohortsNotPositive
  | NumBitsTooLarge
  | NumHashesTooLarge
  | CohortTooLarge
  | ProbabilityOutOfRange string

definition CheckValidProbability :: "cfloat \<Rightarrow> string \<Rightarrow> config_fault option" where
  "CheckValidProbability prob var_name =
     (if float_le prob (FVal 0) \<or> float_gt prob (FVal 1)
      then Some (ProbabilityOutOfRange var_name) else None)"

definition Encoder_ctor :: "string \<Rightarrow> Params \<Rightarrow> 'r Deps \<Rightarrow> config_fault + 'r Encoder" where
  "Encoder_ctor eid ps ds =
     (if num_bits ps \<le> 0 then Inl NumBitsNotPositive
      else if num_hashes ps \<le> 0 then Inl NumHashesNotPositive
      else if num_cohorts ps \<le> 0 then Inl NumCohortsNotPositive
      else if num_bits ps > kMaxBits then Inl NumBitsTooLarge
      else if num_hashes ps > kMaxHashes then Inl NumHashesTooLarge
      else if cohort ds \<ge> num_cohorts ps then Inl CohortTooLarge
      else case CheckValidProbability (prob_f ps) ''prob_f'' of Some e \<Rightarrow> Inl e
       | None \<Rightarrow>
      (case CheckValidProbability (prob_p ps) ''prob_p'' of Some e \<Rightarrow> Inl e
       | None \<Rightarrow>
      (case CheckValidProbability (prob_q ps) ''prob_q'' of Some e \<Rightarrow> Inl e
       | None \<Rightarrow> Inr \<lparr>encoder_id = eid, params = ps, deps = ds\<rparr>)))"

subsection \<open>The Bloom filter\<close>

text \<open>
  \<^verbatim>\<open>MakeBloomFilter\<close>, \<^verbatim>\<open>GetPrrMasks\<close>, \<^verbatim>\<open>_EncodeInternal\<close> and \<^verbatim>\<open>Encode\<close> are
  member functions: they run on an encoder that the constructor returned, so with
  \<open>0 < num_bits \<le> 32\<close> and \<open>0 < num_hashes \<le> 16\<close>. Only there do the models below
  follow the code (a remainder by a positive divisor, shifts by less than 32, reads
  inside the digest), and the statements about them assume such an encoder.
\<close>

text \<open>
  The hash input: a string of \<open>4 + value.size()\<close> zero bytes, whose first four bytes are
  set to 0, 0, 0 and \<^verbatim>\<open>cohort & 0xFF\<close>, and into which the value is copied from index 4.
\<close>

function copy_value :: "bytes \<Rightarrow> nat \<Rightarrow> bytes \<Rightarrow> bytes" where
  "copy_value val i hash_input =
     (if i < length val then copy_value val (i + 1) (hash_input[i + 4 := val ! i])
      else hash_input)"
  by pat_completeness auto
termination
  by (relation "measure (\<lambda>(val, i, hash_input). length val - i)") auto

definition make_hash_input :: "int \<Rightarrow> bytes \<Rightarrow> bytes" where
  "make_hash_input coh val =
     (let hash_input = replicate (4 + length val) (0 :: byte);
          c = (word_of_int (coh AND 255) :: byte);
          hash_input = hash_input[0 := 0];
          hash_input = hash_input[1 := 0];
          hash_input = hash_input[2 := 0];
          hash_input = hash_input[3 := c]
      in copy_value val 0 hash_input)"

text \<open>
  The loop over the first \<open>num_hashes\<close> bytes of the digest. \<^verbatim>\<open>hash_output[i] % num_bits\<close>
  is computed on \<^verbatim>\<open>int\<close>, with a dividend that is not negative; \<^verbatim>\<open>1 << bit_to_set\<close> is
  an \<^verbatim>\<open>int\<close> that is or-ed into the unsigned 32-bit \<^verbatim>\<open>bloom\<close> (for bit 31 the
  \<^verbatim>\<open>int\<close> is the least one, and its conversion to 32 unsigned bits is \<open>2 ^ 31\<close>).
\<close>

function bloom_loop :: "int \<Rightarrow> int \<Rightarrow> bytes \<Rightarrow> int \<Rightarrow> Bits \<Rightarrow> Bits" where
  "bloom_loop nhashes nbits hash_output i bloom =
     (if i < nhashes
      then let bit_to_set = uint (hash_output ! nat i) mod nbits
           in bloom_loop nhashes nbits hash_output (i + 1) (bloom OR push_bit (nat bit_to_set) 1)
      else bloom)"
  by pat_completeness auto
termination
  by (relation "measure (\<lambda>(nhashes, nbits, hash_output, i, bloom). nat (nhashes - i))") auto

text \<open>
  What \<^verbatim>\<open>return false\<close> and the log say went wrong; \<open>UndefinedCast\<close> is not a return
  value: it marks the run whose \<^verbatim>\<open>static_cast<uint8_t>\<close> has no defined result.
\<close>

datatype failure = HashTooFewBytes | HmacWrongSize | PMaskFailed | QMaskFailed | UndefinedCast

text \<open>\<^verbatim>\<open>static_cast<size_t>(num_hashes)\<close>, for a 64-bit \<^verbatim>\<open>size_t\<close>.\<close>

definition size_t_of_int :: "int \<Rightarrow> nat" where
  "size_t_of_int n = nat (n mod 2 ^ 64)"

definition MakeBloomFilter :: "'r Encoder \<Rightarrow> bytes \<Rightarrow> failure + Bits" where
  "MakeBloomFilter enc val =
     (let nbits = num_bits (params enc);
          nhashes = num_hashes (params enc);
          hash_input = make_hash_input (cohort (deps enc)) val;
          hash_output = hash_func (deps enc) hash_input
      in if length hash_output < size_t_of_int nhashes then Inl HashTooFewBytes
         else Inr (bloom_loop nhashes nbits hash_output 0 0))"

subsection \<open>The permanent randomized response\<close>

text \<open>
  The loop over the first \<open>num_bits\<close> bytes of the HMAC digest. \<^verbatim>\<open>u_bit << i\<close> and
  \<^verbatim>\<open>noise_bit << i\<close> are \<^verbatim>\<open>int\<close>s that are or-ed into the unsigned 32-bit masks;
  \<^verbatim>\<open>rand128 < threshold128\<close> compares two bytes by value.
\<close>

function prr_loop :: "int \<Rightarrow> bytes \<Rightarrow> byte \<Rightarrow> int \<Rightarrow> Bits \<Rightarrow> Bits \<Rightarrow> Bits \<times> Bits" where
  "prr_loop nbits sha256 threshold128 i uniform f_mask =
     (if i < nbits
      then let byte = sha256 ! nat i;
               u_bit = byte AND 1;
               uniform = uniform OR push_bit (nat i) (ucast u_bit);
               rand128 = drop_bit 1 byte;
               noise_bit = (if rand128 < threshold128 then 1 else 0 :: byte);
               f_mask = f_mask OR push_bit (nat i) (ucast noise_bit)
           in prr_loop nbits sha256 threshold128 (i + 1) uniform f_mask
      else (uniform, f_mask))"
  by pat_completeness auto
termination
  by (relation "measure (\<lambda>(nbits, sha256, threshold128, i, uniform, f_mask). nat (nbits - i))")
    auto

text \<open>
  The digest must have \<^verbatim>\<open>kMaxBits\<close> bytes. The \<^verbatim>\<open>assert(params_.num_bits_ <= kMaxBits)\<close>
  that follows holds for every encoder the constructor returned.
\<close>

definition GetPrrMasks :: "'r Encoder \<Rightarrow> bytes \<Rightarrow> failure + Bits \<times> Bits" where
  "GetPrrMasks enc val =
     (let sha256 = hmac_func (deps enc) (client_secret (deps enc)) val
      in if int (length sha256) \<noteq> kMaxBits then Inl HmacWrongSize
         else case float_to_uint8 (float_times_128 (prob_f (params enc))) of
                None \<Rightarrow> Inl UndefinedCast
              | Some threshold128 \<Rightarrow>
                  Inr (prr_loop (num_bits (params enc)) sha256 threshold128 0 0 0))"

subsection \<open>Encoding\<close>

text \<open>
  \<^verbatim>\<open>_EncodeInternal\<close> writes through three pointers. The result records what the call
  returned, for each pointer the value written (\<open>None\<close>: nothing was written through it)
  and the state of the randomness source after the call.
\<close>

record 'r encoded =
  status :: "failure option"
  bloom_out :: "Bits option"
  prr_out :: "Bits option"
  irr_out :: "Bits option"
  rand_after :: 'r

definition EncodeInternal :: "'r Encoder \<Rightarrow> 'r \<Rightarrow> bytes \<Rightarrow> 'r encoded" where
  "EncodeInternal enc rs val =
     (case MakeBloomFilter enc val of
        Inl e \<Rightarrow> \<lparr>status = Some e, bloom_out = None, prr_out = None, irr_out = None,
                  rand_after = rs\<rparr>
      | Inr bloom \<Rightarrow>
     (case GetPrrMasks enc val of
        Inl e \<Rightarrow> \<lparr>status = Some e, bloom_out = Some bloom, prr_out = None, irr_out = None,
                  rand_after = rs\<rparr>
      | Inr (uniform, f_mask) \<Rightarrow>
     (let prr = (bloom AND NOT f_mask) OR (uniform AND f_mask)
      in case irr_rand_GetMask (deps enc) rs (prob_p (params enc)) (num_bits (params enc)) of
        (None, rs1) \<Rightarrow> \<lparr>status = Some PMaskFailed, bloom_out = Some bloom, prr_out = Some prr,
                  irr_out = None, rand_after = rs1\<rparr>
      | (Some p_bits, rs1) \<Rightarrow>
     (case irr_rand_GetMask (deps enc) rs1 (prob_q (params enc)) (num_bits (params enc)) of
        (None, rs2) \<Rightarrow> \<lparr>status = Some QMaskFailed, bloom_out = Some bloom, prr_out = Some prr,
                  irr_out = None, rand_after = rs2\<rparr>
      | (Some q_bits, rs2) \<Rightarrow>
     (let irr = (p_bits AND NOT prr) OR (q_bits AND prr)
      in \<lparr>status = None, bloom_out = Some bloom, prr_out = Some prr, irr_out = Some irr,
          rand_after = rs2\<rparr>)))))"

text \<open>\<^verbatim>\<open>Encode\<close>: the Bloom filter and the PRR go to two locals and are dropped.\<close>

definition Encode :: "'r Encoder \<Rightarrow> 'r \<Rightarrow> bytes \<Rightarrow> failure option \<times> Bits option \<times> 'r" where
  "Encode enc rs val =
     (let r = EncodeInternal enc rs val in (status r, irr_out r, rand_after r))"

subsection \<open>Derived notions used in the statements\<close>

text \<open>An encoder object exists only as the value the constructor produced.\<close>

definition constructed :: "'r Encoder \<Rightarrow> bool" where
  "constructed enc = (Encoder_ctor (encoder_id enc) (params enc) (deps enc) = Inr enc)"

text \<open>The digest \<^verbatim>\<open>MakeBloomFilter\<close> gets from the hash function for a value.\<close>

definition hash_output_of :: "'r Encoder \<Rightarrow> bytes \<Rightarrow> bytes" where
  "hash_output_of enc val = hash_func (deps enc) (make_hash_input (cohort (deps enc)) val)"

text \<open>The digest \<^verbatim>\<open>GetPrrMasks\<close> gets from the HMAC function for a value.\<close>

definition hmac_digest_of :: "'r Encoder \<Rightarrow> bytes \<Rightarrow> bytes" where
  "hmac_digest_of enc val = hmac_func (deps enc) (client_secret (deps enc)) val"

text \<open>
  Following the spec's words, for comparison with \<open>make_hash_input\<close>: the 4-byte
  big-endian encoding of an integer.
\<close>

definition big_endian4 :: "int \<Rightarrow> bytes" where
  "big_endian4 n =
     [word_of_int (n div 2 ^ 24), word_of_int (n div 2 ^ 16), word_of_int (n div 2 ^ 8),
      word_of_int n]"

text \<open>
  Following the spec's words: a probability outside the interval (0.0, 1.0]. A NaN is
  not a member of the interval.
\<close>

fun outside_unit_interval :: "cfloat \<Rightarrow> bool" where
  "outside_unit_interval (FVal r) = (r \<le> 0 \<or> 1 < r)"
| "outside_unit_interval _ = True"

text \<open>Following the spec's words: the configuration faults of section 4.1.\<close>

definition configuration_fault :: "Params \<Rightarrow> 'r Deps \<Rightarrow> bool" where
  "configuration_fault ps ds =
     (num_bits ps \<le> 0 \<or> 32 < num_bits ps \<or> num_hashes ps \<le> 0 \<or> 16 < num_hashes ps \<or>
      num_cohorts ps \<le> 0 \<or> num_cohorts ps \<le> cohort ds \<or>
      outside_unit_interval (prob_f ps) \<or> outside_unit_interval (prob_p ps) \<or>
      outside_unit_interval (prob_q ps))"

text \<open>
  Following the spec's words: the operational faults of one call. The second draw is
  made from the state the first draw leaves.
\<close>

definition operational_fault :: "'r Encoder \<Rightarrow> 'r \<Rightarrow> bytes \<Rightarrow> bool" where
  "operational_fault enc rs val =
     (let nbits = num_bits (params enc);
          draw_p = irr_rand_GetMask (deps enc) rs (prob_p (params enc)) nbits;
          draw_q = irr_rand_GetMask (deps enc) (snd draw_p) (prob_q (params enc)) nbits
      in length (hash_output_of enc val) < nat (num_hashes (params enc)) \<or>
         length (hmac_digest_of enc val) \<noteq> 32 \<or>
         fst draw_p = None \<or> fst draw_q = None)"

text \<open>
  The assumption on the randomness source: a mask drawn for the encoder's width has no
  bit at or above that width.
\<close>

definition masks_within_width :: "'r Encoder \<Rightarrow> bool" where
  "masks_within_width enc =
     (\<forall>s prob m s'.
        irr_rand_GetMask (deps enc) s prob (num_bits (params enc)) = (Some m, s') \<longrightarrow>
        (\<forall>k \<ge> nat (num_bits (params enc)). \<not> bit m k))"

subsection \<open>Sample dependencies for concrete runs\<close>

text \<open>
  The parameters are those of the unit tests (\<^verbatim>\<open>EncoderUint32Test\<close>). The hash, the
  HMAC and the randomness source are stand-ins chosen for evaluation: the hash reverses
  its input, the HMAC pads value and secret to 32 bytes, the randomness source plays a
  script: a list whose entries are a mask to hand out, cut to the width asked for, or a
  failed draw; it fails when the script is at its end.
\<close>

definition bytes_of :: "string \<Rightarrow> bytes" where
  "bytes_of s = map of_char s"

definition test_params :: Params where
  "test_params = \<lparr>num_bits = 32, num_hashes = 2, num_cohorts = 128,
     prob_f = FVal 0.25, prob_p = FVal 0.75, prob_q = FVal 0.5\<rparr>"

definition sample_hash :: "bytes \<Rightarrow> bytes" where
  "sample_hash inp = rev inp"

definition sample_hmac :: "bytes \<Rightarrow> bytes \<Rightarrow> bytes" where
  "sample_hmac secret val =
     take 32 (val @ secret @ [7, 200, 33, 64, 129, 2, 90, 255, 18, 63, 0, 1, 254, 100, 45, 12,
                              77, 201, 5, 130, 62, 65, 31, 250, 9, 88, 127, 3, 16, 240, 99, 21])"

fun sample_GetMask ::
  "Bits option list \<Rightarrow> cfloat \<Rightarrow> int \<Rightarrow> Bits option \<times> Bits option list" where
  "sample_GetMask [] prob nbits = (None, [])"
| "sample_GetMask (None # rs) prob nbits = (None, rs)"
| "sample_GetMask (Some m # rs) prob nbits = (Some (take_bit (nat nbits) m), rs)"

definition failing_GetMask :: "unit \<Rightarrow> cfloat \<Rightarrow> int \<Rightarrow> Bits option \<times> unit" where
  "failing_GetMask u prob nbits = (None, ())"

definition sample_deps :: "int \<Rightarrow> Bits option list Deps" where
  "sample_deps c = \<lparr>cohort = c, hash_func = sample_hash,
     client_secret = bytes_of ''client-secret'', hmac_func = sample_hmac,
     irr_rand_GetMask = sample_GetMask\<rparr>"

definition sample_encoder :: "Params \<Rightarrow> int \<Rightarrow> Bits option list Encoder" where
  "sample_encoder ps c = \<lparr>encoder_id = ''metric-name'', params = ps, deps = sample_deps c\<rparr>"

definition starved_encoder :: "unit Encoder" where
  "starved_encoder = \<lparr>encoder_id = ''metric-name'', params = test_params,
     deps = \<lparr>cohort = 3, hash_func = sample_hash, client_secret = bytes_of ''client-secret'',
       hmac_func = sample_hmac, irr_rand_GetMask = failing_GetMask\<rparr>\<rparr>"

section \<open>Properties\<close>

subsection \<open>The constructor's checks\<close>

lemma CheckValidProbability_None_iff:
  "CheckValidProbability p n = None \<longleftrightarrow> (p = FNaN \<or> (\<exists>r. p = FVal r \<and> 0 < r \<and> r \<le> 1))"
  by (cases p) (auto simp: CheckValidProbability_def)

lemma Encoder_ctor_Inr_iff:
  "Encoder_ctor eid ps ds = Inr enc \<longleftrightarrow>
     enc = \<lparr>encoder_id = eid, params = ps, deps = ds\<rparr> \<and>
     0 < num_bits ps \<and> num_bits ps \<le> 32 \<and> 0 < num_hashes ps \<and> num_hashes ps \<le> 16 \<and>
     0 < num_cohorts ps \<and> cohort ds < num_cohorts ps \<and>
     CheckValidProbability (prob_f ps) ''prob_f'' = None \<and>
     CheckValidProbability (prob_p ps) ''prob_p'' = None \<and>
     CheckValidProbability (prob_q ps) ''prob_q'' = None"
  by (auto simp: Encoder_ctor_def kMaxBits_def kMaxHashes_def split: option.splits)

lemma constructed_iff:
  "constructed enc \<longleftrightarrow>
     0 < num_bits (params enc) \<and> num_bits (params enc) \<le> 32 \<and>
     0 < num_hashes (params enc) \<and> num_hashes (params enc) \<le> 16 \<and>
     0 < num_cohorts (params enc) \<and> cohort (deps enc) < num_cohorts (params enc) \<and>
     CheckValidProbability (prob_f (params enc)) ''prob_f'' = None \<and>
     CheckValidProbability (prob_p (params enc)) ''prob_p'' = None \<and>
     CheckValidProbability (prob_q (params enc)) ''prob_q'' = None"
  unfolding constructed_def Encoder_ctor_Inr_iff by auto

lemma constructed_prob_f:
  assumes "constructed enc" and "prob_f (params enc) \<noteq> FNaN"
  obtains f where "prob_f (params enc) = FVal f" "0 < f" "f \<le> 1"
  using assms by (auto simp: constructed_iff CheckValidProbability_None_iff)

subsection \<open>The hash input\<close>

lemma copy_value_eq:
  "i \<le> length val \<Longrightarrow> length hi = 4 + length val \<Longrightarrow>
   copy_value val i hi = take (i + 4) hi @ drop i val"
proof (induction val i hi rule: copy_value.induct)
  case (1 val i hi)
  show ?case
  proof (cases "i < length val")
    case True
    have "copy_value val i hi = copy_value val (i + 1) (hi[i + 4 := val ! i])"
      using True by simp
    also have "\<dots> = take (i + 1 + 4) (hi[i + 4 := val ! i]) @ drop (i + 1) val"
      using True "1.prems" by (intro "1.IH") simp_all
    also have "take (i + 1 + 4) (hi[i + 4 := val ! i]) = take (i + 4) hi @ [val ! i]"
    proof -
      have "i + 4 < length (hi[i + 4 := val ! i])"
        using True "1.prems" by simp
      then have "take (Suc (i + 4)) (hi[i + 4 := val ! i]) =
          take (i + 4) (hi[i + 4 := val ! i]) @ [hi[i + 4 := val ! i] ! (i + 4)]"
        by (rule take_Suc_conv_app_nth)
      moreover have "hi[i + 4 := val ! i] ! (i + 4) = val ! i"
        using True "1.prems" by simp
      moreover have "take (i + 4) (hi[i + 4 := val ! i]) = take (i + 4) hi"
        by simp
      moreover have "i + 1 + 4 = Suc (i + 4)"
        by simp
      ultimately show ?thesis
        by simp
    qed
    also have "(take (i + 4) hi @ [val ! i]) @ drop (i + 1) val = take (i + 4) hi @ drop i val"
      using True by (simp add: Cons_nth_drop_Suc)
    finally show ?thesis .
  next
    case False
    with "1.prems" show ?thesis by simp
  qed
qed

lemma replicate_4_plus: "replicate (4 + n) x = x # x # x # x # replicate n x"
  by (simp add: eval_nat_numeral)

lemma make_hash_input_eq:
  "make_hash_input coh val = [0, 0, 0, word_of_int (coh AND 255)] @ val"
proof -
  let ?hi = "[0, 0, 0, word_of_int (coh AND 255)] @ replicate (length val) (0 :: byte)"
  have "make_hash_input coh val = copy_value val 0 ?hi"
    by (simp add: make_hash_input_def Let_def replicate_4_plus eval_nat_numeral
        del: copy_value.simps)
  also have "\<dots> = take (0 + 4) ?hi @ drop 0 val"
    by (rule copy_value_eq) simp_all
  finally show ?thesis
    by simp
qed

lemma and_255_eq_mod: "(c :: int) AND 255 = c mod 256"
proof -
  have "c AND 255 = c AND mask 8"
    by (simp add: mask_eq_exp_minus_1)
  also have "\<dots> = take_bit 8 c"
    by (simp add: take_bit_eq_mask)
  also have "\<dots> = c mod 256"
    by (simp add: take_bit_eq_mod)
  finally show ?thesis .
qed

lemma big_endian4_small:
  "0 \<le> c \<Longrightarrow> c < 256 \<Longrightarrow> big_endian4 c = [0, 0, 0, word_of_int (c AND 255)]"
  by (simp add: big_endian4_def and_255_eq_mod)

subsection \<open>Single bits of the masks\<close>

lemma bit_exp_Bits: "bit (2 ^ n :: Bits) k \<longleftrightarrow> n = k \<and> k < 32"
  by (auto simp: bit_simps)

lemma bit_single_Bits: "0 \<le> b \<Longrightarrow> b < 32 \<Longrightarrow> bit (push_bit (nat b) 1 :: Bits) k \<longleftrightarrow> b = int k"
  by (auto simp: bit_exp_Bits)

lemma bit_uniform_step: "0 \<le> i \<Longrightarrow> i < 32 \<Longrightarrow> bit (push_bit (nat i) (ucast (byte AND 1 :: byte)) :: Bits) k \<longleftrightarrow> int k = i \<and> bit byte 0"
  by (auto simp: bit_simps)

lemma bit_noise_step: "0 \<le> i \<Longrightarrow> i < 32 \<Longrightarrow> bit (push_bit (nat i) (ucast (if c then 1 else 0 :: byte)) :: Bits) k
        \<longleftrightarrow> int k = i \<and> c"
  by (auto simp: bit_simps)

subsection \<open>The two loops\<close>

lemma bloom_loop_bit:
  "0 \<le> i \<Longrightarrow> 0 < nbits \<Longrightarrow> nbits \<le> 32 \<Longrightarrow>
   bit (bloom_loop nhashes nbits hash_output i bloom) k \<longleftrightarrow>
     bit bloom k \<or> (\<exists>j. i \<le> j \<and> j < nhashes \<and> uint (hash_output ! nat j) mod nbits = int k)"
proof (induction nhashes nbits hash_output i bloom rule: bloom_loop.induct)
  case (1 nhashes nbits hash_output i bloom)
  show ?case
  proof (cases "i < nhashes")
    case False
    then show ?thesis by auto
  next
    case True
    let ?b = "uint (hash_output ! nat i) mod nbits"
    have b: "0 \<le> ?b" "?b < 32"
      using "1.prems" by (auto intro: order_less_le_trans [OF pos_mod_bound])
    have step: "bloom_loop nhashes nbits hash_output i bloom =
        bloom_loop nhashes nbits hash_output (i + 1) (bloom OR push_bit (nat ?b) 1)"
      using True by (simp add: Let_def)
    have IH: "bit (bloom_loop nhashes nbits hash_output (i + 1) (bloom OR push_bit (nat ?b) 1)) k \<longleftrightarrow>
        bit (bloom OR push_bit (nat ?b) 1) k \<or>
        (\<exists>j. i + 1 \<le> j \<and> j < nhashes \<and> uint (hash_output ! nat j) mod nbits = int k)"
      using True "1.prems" by (intro "1.IH") simp_all
    have single: "bit (push_bit (nat ?b) 1 :: Bits) k \<longleftrightarrow> ?b = int k"
      using b by (rule bit_single_Bits)
    have split: "(\<exists>j. i \<le> j \<and> j < nhashes \<and> uint (hash_output ! nat j) mod nbits = int k) \<longleftrightarrow>
        ?b = int k \<or> (\<exists>j. i + 1 \<le> j \<and> j < nhashes \<and> uint (hash_output ! nat j) mod nbits = int k)"
      (is "?L \<longleftrightarrow> ?R")
    proof
      assume ?L
      then obtain j where j: "i \<le> j" "j < nhashes" "uint (hash_output ! nat j) mod nbits = int k"
        by blast
      show ?R
      proof (cases "j = i")
        case True
        with j show ?thesis by simp
      next
        case False
        with j have "i + 1 \<le> j" by simp
        with j show ?thesis by blast
      qed
    next
      assume ?R
      then show ?L
      proof
        assume "?b = int k"
        with True show ?L by (intro exI [of _ i]) simp
      next
        assume "\<exists>j. i + 1 \<le> j \<and> j < nhashes \<and> uint (hash_output ! nat j) mod nbits = int k"
        then obtain j where "i + 1 \<le> j" "j < nhashes" "uint (hash_output ! nat j) mod nbits = int k"
          by blast
        then show ?L by (intro exI [of _ j]) simp
      qed
    qed
    have "bit (bloom OR push_bit (nat ?b) 1) k \<longleftrightarrow> bit bloom k \<or> ?b = int k"
      by (simp only: bit_or_iff single)
    then show ?thesis
      unfolding step IH split by blast
  qed
qed

lemma prr_loop_bits:
  "0 \<le> i \<Longrightarrow> nbits \<le> 32 \<Longrightarrow> prr_loop nbits sha256 t i u f = (u', f') \<Longrightarrow>
   (bit u' k \<longleftrightarrow> bit u k \<or> (i \<le> int k \<and> int k < nbits \<and> bit (sha256 ! k) 0)) \<and>
   (bit f' k \<longleftrightarrow> bit f k \<or> (i \<le> int k \<and> int k < nbits \<and> drop_bit 1 (sha256 ! k) < t))"
proof (induction nbits sha256 t i u f rule: prr_loop.induct)
  case (1 nbits sha256 t i u f)
  show ?case
  proof (cases "i < nbits")
    case False
    with "1.prems" show ?thesis by auto
  next
    case True
    let ?byte = "sha256 ! nat i"
    let ?u = "u OR push_bit (nat i) (ucast (?byte AND 1))"
    let ?f = "f OR push_bit (nat i) (ucast (if drop_bit 1 ?byte < t then 1 else 0 :: byte))"
    have step: "prr_loop nbits sha256 t (i + 1) ?u ?f = (u', f')"
      using True "1.prems"(3) by (simp add: Let_def)
    have IH: "(bit u' k \<longleftrightarrow> bit ?u k \<or> (i + 1 \<le> int k \<and> int k < nbits \<and> bit (sha256 ! k) 0)) \<and>
      (bit f' k \<longleftrightarrow> bit ?f k \<or> (i + 1 \<le> int k \<and> int k < nbits \<and> drop_bit 1 (sha256 ! k) < t))"
      using True "1.prems"(1,2) step by (intro "1.IH" [OF True refl refl refl refl refl refl]) simp_all
    have i32: "i < 32"
      using True "1.prems" by simp
    have u: "bit ?u k \<longleftrightarrow> bit u k \<or> (int k = i \<and> bit ?byte 0)"
      by (simp only: bit_or_iff bit_uniform_step [OF "1.prems"(1) i32])
    have f: "bit ?f k \<longleftrightarrow> bit f k \<or> (int k = i \<and> drop_bit 1 ?byte < t)"
      by (simp only: bit_or_iff bit_noise_step [OF "1.prems"(1) i32])
    show ?thesis
    proof (cases "int k = i")
      case this_byte: True
      then have "sha256 ! k = ?byte" "\<not> i + 1 \<le> int k" "int k < nbits" "i \<le> int k"
        using True by auto
      with IH this_byte show ?thesis
        unfolding u f by simp
    next
      case False
      then have "i \<le> int k \<longleftrightarrow> i + 1 \<le> int k"
        by auto
      with IH False show ?thesis
        unfolding u f by simp
    qed
  qed
qed

subsection \<open>The Bloom filter of a constructed encoder\<close>

lemma size_t_of_int_small: "0 \<le> n \<Longrightarrow> n \<le> 16 \<Longrightarrow> size_t_of_int n = nat n"
  by (simp add: size_t_of_int_def)

lemma MakeBloomFilter_constructed:
  assumes "constructed enc"
  shows "MakeBloomFilter enc val =
     (if length (hash_output_of enc val) < nat (num_hashes (params enc)) then Inl HashTooFewBytes
      else Inr (bloom_loop (num_hashes (params enc)) (num_bits (params enc))
                  (hash_output_of enc val) 0 0))"
  using assms
  by (simp add: constructed_iff MakeBloomFilter_def Let_def size_t_of_int_small hash_output_of_def
      del: bloom_loop.simps)

lemma MakeBloomFilter_bits:
  assumes "constructed enc" and "MakeBloomFilter enc val = Inr bloom"
  shows "bit bloom i \<longleftrightarrow>
     (\<exists>j < nat (num_hashes (params enc)).
        uint (hash_output_of enc val ! j) mod num_bits (params enc) = int i)"
proof -
  let ?nh = "num_hashes (params enc)" and ?nb = "num_bits (params enc)"
  let ?ho = "hash_output_of enc val"
  have nb: "0 < ?nb" "?nb \<le> 32"
    using assms(1) by (simp_all add: constructed_iff)
  have bloom: "bloom = bloom_loop ?nh ?nb ?ho 0 0"
    using assms(2) unfolding MakeBloomFilter_constructed [OF assms(1)]
    by (simp split: if_splits del: bloom_loop.simps)
  have "bit (bloom_loop ?nh ?nb ?ho 0 0) i \<longleftrightarrow>
      bit (0 :: Bits) i \<or> (\<exists>j. 0 \<le> j \<and> j < ?nh \<and> uint (?ho ! nat j) mod ?nb = int i)"
    using nb by (intro bloom_loop_bit) simp_all
  also have "\<dots> \<longleftrightarrow> (\<exists>j < nat ?nh. uint (?ho ! j) mod ?nb = int i)"
  proof -
    have "(\<exists>j. 0 \<le> j \<and> j < ?nh \<and> uint (?ho ! nat j) mod ?nb = int i) \<longleftrightarrow>
        (\<exists>j < nat ?nh. uint (?ho ! j) mod ?nb = int i)" (is "?L \<longleftrightarrow> ?R")
    proof
      assume ?L
      then obtain j where "0 \<le> j" "j < ?nh" "uint (?ho ! nat j) mod ?nb = int i"
        by blast
      then show ?R
        by (intro exI [of _ "nat j"]) simp
    next
      assume ?R
      then obtain j where "j < nat ?nh" "uint (?ho ! j) mod ?nb = int i"
        by blast
      then show ?L
        by (intro exI [of _ "int j"]) simp
    qed
    then show ?thesis by simp
  qed
  finally show ?thesis
    unfolding bloom .
qed

lemma MakeBloomFilter_cases:
  assumes "constructed enc"
  shows "MakeBloomFilter enc val = Inl HashTooFewBytes \<and>
       length (hash_output_of enc val) < nat (num_hashes (params enc)) \<or>
     (\<exists>b. MakeBloomFilter enc val = Inr b) \<and>
       \<not> length (hash_output_of enc val) < nat (num_hashes (params enc))"
  by (simp add: MakeBloomFilter_constructed [OF assms] del: bloom_loop.simps)

lemma MakeBloomFilter_width:
  assumes "constructed enc" and "MakeBloomFilter enc val = Inr bloom"
    and "nat (num_bits (params enc)) \<le> i"
  shows "\<not> bit bloom i"
proof
  assume "bit bloom i"
  then obtain j where "uint (hash_output_of enc val ! j) mod num_bits (params enc) = int i"
    unfolding MakeBloomFilter_bits [OF assms(1,2)] by blast
  moreover have "0 < num_bits (params enc)"
    using assms(1) by (simp add: constructed_iff)
  then have "uint (hash_output_of enc val ! j) mod num_bits (params enc) < num_bits (params enc)"
    by simp
  ultimately show False
    using assms(3) by simp
qed

subsection \<open>The masks of a constructed encoder\<close>

lemma threshold128_value:
  assumes "0 < f" and "f \<le> 1"
  shows "float_to_uint8 (float_times_128 (FVal f)) = Some (word_of_int \<lfloor>f * 128\<rfloor>)"
    and "0 \<le> \<lfloor>f * 128\<rfloor>" and "\<lfloor>f * 128\<rfloor> \<le> 128"
proof -
  show lo: "0 \<le> \<lfloor>f * 128\<rfloor>"
    using assms by simp
  have "f * 128 \<le> 128"
    using assms by simp
  then show hi: "\<lfloor>f * 128\<rfloor> \<le> 128"
    by (simp add: floor_le_iff)
  from lo hi assms show "float_to_uint8 (float_times_128 (FVal f)) = Some (word_of_int \<lfloor>f * 128\<rfloor>)"
    by (simp add: trunc_toward_zero_def Let_def)
qed

lemma byte_less_threshold:
  assumes "0 \<le> t" and "t \<le> 128"
  shows "(b :: byte) < word_of_int t \<longleftrightarrow> uint b < t"
proof -
  have "uint (word_of_int t :: byte) = t"
    using assms by (simp add: uint_word_of_int take_bit_eq_mod)
  then show ?thesis
    by (simp add: word_less_def)
qed

lemma uint_shift_right_one: "uint (drop_bit 1 (b :: byte)) < 128" "0 \<le> uint (drop_bit 1 (b :: byte))"
proof -
  have "uint b < 256"
    using uint_bounded [of b] by simp
  moreover have "uint (drop_bit 1 b) = uint b div 2"
  proof -
    have "drop_bit 1 b = b div 2"
      by (simp add: drop_bit_eq_div)
    then show ?thesis
      by (simp add: uint_div)
  qed
  ultimately show "uint (drop_bit 1 (b :: byte)) < 128"
    by simp
  show "0 \<le> uint (drop_bit 1 (b :: byte))"
    by simp
qed

lemma GetPrrMasks_constructed:
  assumes "constructed enc" and "prob_f (params enc) = FVal f"
    and "length (hmac_digest_of enc val) = 32"
  shows "GetPrrMasks enc val =
     Inr (prr_loop (num_bits (params enc)) (hmac_digest_of enc val) (word_of_int \<lfloor>f * 128\<rfloor>) 0 0 0)"
    and "0 < f" and "f \<le> 1"
proof -
  from assms(1,2) show f: "0 < f" "f \<le> 1"
    by (auto simp: constructed_iff CheckValidProbability_None_iff)
  show "GetPrrMasks enc val =
     Inr (prr_loop (num_bits (params enc)) (hmac_digest_of enc val) (word_of_int \<lfloor>f * 128\<rfloor>) 0 0 0)"
    using assms(2,3) threshold128_value(1) [OF f]
    by (simp add: GetPrrMasks_def Let_def kMaxBits_def hmac_digest_of_def del: prr_loop.simps float_to_uint8.simps float_times_128.simps)
qed

lemma GetPrrMasks_bits:
  assumes "constructed enc" and "prob_f (params enc) = FVal f"
    and "GetPrrMasks enc val = Inr (uniform, f_mask)"
  shows "bit uniform k \<longleftrightarrow> int k < num_bits (params enc) \<and> bit (hmac_digest_of enc val ! k) 0"
    and "bit f_mask k \<longleftrightarrow> int k < num_bits (params enc) \<and>
           uint (drop_bit 1 (hmac_digest_of enc val ! k)) < \<lfloor>f * 128\<rfloor>"
proof -
  have len: "length (hmac_digest_of enc val) = 32"
    using assms(3) by (auto simp: GetPrrMasks_def Let_def kMaxBits_def hmac_digest_of_def split: if_splits)
  have f: "0 < f" "f \<le> 1"
    using GetPrrMasks_constructed(2,3) [OF assms(1,2) len] .
  have loop: "prr_loop (num_bits (params enc)) (hmac_digest_of enc val) (word_of_int \<lfloor>f * 128\<rfloor>) 0 0 0
      = (uniform, f_mask)"
    using GetPrrMasks_constructed(1) [OF assms(1,2) len] assms(3) by simp
  have nb: "num_bits (params enc) \<le> 32"
    using assms(1) by (simp add: constructed_iff)
  note bits = prr_loop_bits [OF _ nb loop, of k, simplified]
  show "bit uniform k \<longleftrightarrow> int k < num_bits (params enc) \<and> bit (hmac_digest_of enc val ! k) 0"
    using bits by simp
  show "bit f_mask k \<longleftrightarrow> int k < num_bits (params enc) \<and>
           uint (drop_bit 1 (hmac_digest_of enc val ! k)) < \<lfloor>f * 128\<rfloor>"
    using bits byte_less_threshold [OF threshold128_value(2,3) [OF f]] by simp
qed

lemma GetPrrMasks_defined:
  assumes "constructed enc" and "prob_f (params enc) \<noteq> FNaN"
  shows "GetPrrMasks enc val = Inl HmacWrongSize \<and> length (hmac_digest_of enc val) \<noteq> 32 \<or>
     (\<exists>m. GetPrrMasks enc val = Inr m) \<and> length (hmac_digest_of enc val) = 32"
proof (cases "length (hmac_digest_of enc val) = 32")
  case True
  obtain f where "prob_f (params enc) = FVal f"
    using assms by (rule constructed_prob_f)
  from GetPrrMasks_constructed(1) [OF assms(1) this True] True show ?thesis
    by blast
next
  case False
  then show ?thesis
    by (simp add: GetPrrMasks_def hmac_digest_of_def kMaxBits_def del: prr_loop.simps)
qed

subsection \<open>What a call writes\<close>

lemma EncodeInternal_bloom_out:
  "bloom_out (EncodeInternal enc rs val) = Some b \<Longrightarrow> MakeBloomFilter enc val = Inr b"
  by (auto simp: EncodeInternal_def Let_def split: sum.splits prod.splits option.splits)

lemma EncodeInternal_prr_out:
  "prr_out (EncodeInternal enc rs val) = Some p \<Longrightarrow>
   \<exists>b u f. MakeBloomFilter enc val = Inr b \<and> GetPrrMasks enc val = Inr (u, f) \<and>
     p = (b AND NOT f) OR (u AND f)"
  by (auto simp: EncodeInternal_def Let_def split: sum.splits prod.splits option.splits)

lemma EncodeInternal_irr_out:
  "irr_out (EncodeInternal enc rs val) = Some q \<Longrightarrow>
   \<exists>prr p_bits q_bits r1 r2. prr_out (EncodeInternal enc rs val) = Some prr \<and>
     irr_rand_GetMask (deps enc) rs (prob_p (params enc)) (num_bits (params enc)) = (Some p_bits, r1) \<and>
     irr_rand_GetMask (deps enc) r1 (prob_q (params enc)) (num_bits (params enc)) = (Some q_bits, r2) \<and>
     q = (p_bits AND NOT prr) OR (q_bits AND prr)"
  by (auto simp: EncodeInternal_def Let_def split: sum.splits prod.splits option.splits)

subsection \<open>The sample encoder, evaluated\<close>

lemma sample_constructed: "constructed (sample_encoder test_params 3)"
  by (simp add: constructed_def sample_encoder_def Encoder_ctor_def test_params_def
      sample_deps_def CheckValidProbability_def kMaxBits_def kMaxHashes_def)

lemma sample_prob_f: "prob_f (params (sample_encoder test_params 3)) = FVal (1 / 4)"
  by (simp add: sample_encoder_def test_params_def)

lemma sample_hash_output:
  "hash_output_of (sample_encoder test_params 3) (bytes_of ''foo'') = [111, 111, 102, 3, 0, 0, 0]"
  by (simp add: hash_output_of_def sample_encoder_def sample_deps_def sample_hash_def
      make_hash_input_eq bytes_of_def)

lemma sample_hmac_digest:
  "hmac_digest_of (sample_encoder test_params 3) (bytes_of ''foo'') =
     [102, 111, 111, 99, 108, 105, 101, 110, 116, 45, 115, 101, 99, 114, 101, 116,
      7, 200, 33, 64, 129, 2, 90, 255, 18, 63, 0, 1, 254, 100, 45, 12]"
  by (simp add: hmac_digest_of_def sample_encoder_def sample_deps_def sample_hmac_def bytes_of_def)

lemma sample_bloom: "MakeBloomFilter (sample_encoder test_params 3) (bytes_of ''foo'') = Inr 32768"
  by (simp add: MakeBloomFilter_constructed [OF sample_constructed] sample_hash_output)
    (simp add: sample_encoder_def test_params_def)

lemma sample_masks:
  "GetPrrMasks (sample_encoder test_params 3) (bytes_of ''foo'') = Inr (1251303022, 3475309056)"
  unfolding GetPrrMasks_constructed(1) [OF sample_constructed sample_prob_f, of "bytes_of ''foo''", unfolded sample_hmac_digest, simplified]
  by (simp add: sample_encoder_def test_params_def)

lemma sample_run:
  "EncodeInternal (sample_encoder test_params 3) [Some 0x0F0F0F0F, Some 0x33333333] (bytes_of ''foo'') =
     \<lparr>status = None, bloom_out = Some 32768, prr_out = Some 1241874944,
      irr_out = Some 118165263, rand_after = []\<rparr>"
  by (simp add: EncodeInternal_def sample_bloom sample_masks)
    (simp add: sample_encoder_def test_params_def sample_deps_def)

subsection \<open>Construction-time validation\<close>

text \<open>
  The constructor ends in a fault exactly when one of its nine checks fails; for
  probabilities that are not NaN these are the configuration faults of the spec.
\<close>

lemma Encoder_ctor_fault_iff:
  "(\<exists>e. Encoder_ctor eid ps ds = Inl e) \<longleftrightarrow>
     num_bits ps \<le> 0 \<or> 32 < num_bits ps \<or> num_hashes ps \<le> 0 \<or> 16 < num_hashes ps \<or>
     num_cohorts ps \<le> 0 \<or> num_cohorts ps \<le> cohort ds \<or>
     CheckValidProbability (prob_f ps) ''prob_f'' \<noteq> None \<or>
     CheckValidProbability (prob_p ps) ''prob_p'' \<noteq> None \<or>
     CheckValidProbability (prob_q ps) ''prob_q'' \<noteq> None"
  by (auto simp: Encoder_ctor_def kMaxBits_def kMaxHashes_def split: option.splits)

lemma CheckValidProbability_Some_iff:
  "CheckValidProbability p n \<noteq> None \<longleftrightarrow> p \<noteq> FNaN \<and> outside_unit_interval p"
  by (cases p) (auto simp: CheckValidProbability_def)

lemma Encoder_ctor_fault_without_nan:
  assumes "prob_f ps \<noteq> FNaN" and "prob_p ps \<noteq> FNaN" and "prob_q ps \<noteq> FNaN"
  shows "(\<exists>e. Encoder_ctor eid ps ds = Inl e) \<longleftrightarrow> configuration_fault ps ds"
  unfolding Encoder_ctor_fault_iff CheckValidProbability_Some_iff configuration_fault_def
  using assms by simp

text \<open>
  Claim C6 (construction-time validation): construction signals a configuration fault
  if and only if a count is out of its range or a probability lies outside (0.0, 1.0].
  A NaN lies outside the interval, and both comparisons of \<^verbatim>\<open>CheckValidProbability\<close>
  are false for it: with \<^verbatim>\<open>prob_f\<close> a NaN and every other parameter as in the unit
  tests, the spec demands a fault, the constructor returns an encoder, and the cast
  \<^verbatim>\<open>static_cast<uint8_t>(prob_f * 128)\<close> in \<^verbatim>\<open>GetPrrMasks\<close> is then undefined.
\<close>

theorem C6_nan_probability_accepted:
  "configuration_fault (test_params\<lparr>prob_f := FNaN\<rparr>) (sample_deps 3) \<and>
   Encoder_ctor ''metric-name'' (test_params\<lparr>prob_f := FNaN\<rparr>) (sample_deps 3) =
     Inr (sample_encoder (test_params\<lparr>prob_f := FNaN\<rparr>) 3) \<and>
   GetPrrMasks (sample_encoder (test_params\<lparr>prob_f := FNaN\<rparr>) 3) (bytes_of ''foo'') =
     Inl UndefinedCast"
  by (simp add: configuration_fault_def Encoder_ctor_def test_params_def sample_deps_def
      sample_encoder_def CheckValidProbability_def kMaxBits_def kMaxHashes_def
      GetPrrMasks_def sample_hmac_def bytes_of_def)

subsection \<open>Bloom filter\<close>

text \<open>
  Claim C3 (Bloom filter bit selection): when the hash function returns at least
  \<open>num_hashes\<close> bytes, \<^verbatim>\<open>MakeBloomFilter\<close> succeeds and bit \<open>i\<close> of its mask is set if
  and only if some \<open>j < num_hashes\<close> has \<open>hash_output[j] mod num_bits = i\<close>. A bit is
  set or not: two digest bytes that select the same index set one bit.
\<close>

theorem C3_bloom_filter_bits:
  assumes "constructed enc"
    and "nat (num_hashes (params enc)) \<le> length (hash_output_of enc val)"
  shows "\<exists>bloom. MakeBloomFilter enc val = Inr bloom \<and>
     (\<forall>i. bit bloom i \<longleftrightarrow>
        (\<exists>j < nat (num_hashes (params enc)).
           uint (hash_output_of enc val ! j) mod num_bits (params enc) = int i))"
proof -
  obtain bloom where bloom: "MakeBloomFilter enc val = Inr bloom"
    using MakeBloomFilter_cases [OF assms(1), of val] assms(2) by auto
  show ?thesis
    using bloom MakeBloomFilter_bits [OF assms(1) bloom] by blast
qed

text \<open>
  At the sample encoder the two digest bytes used are both 111, both select bit 15, and
  the mask is \<open>2 ^ 15\<close>.
\<close>

theorem C3_bloom_filter_bits_witness:
  "constructed (sample_encoder test_params 3) \<and>
   nat (num_hashes (params (sample_encoder test_params 3)))
     \<le> length (hash_output_of (sample_encoder test_params 3) (bytes_of ''foo'')) \<and>
   hash_output_of (sample_encoder test_params 3) (bytes_of ''foo'') ! 0 = 111 \<and>
   hash_output_of (sample_encoder test_params 3) (bytes_of ''foo'') ! 1 = 111 \<and>
   (\<exists>bloom. MakeBloomFilter (sample_encoder test_params 3) (bytes_of ''foo'') = Inr bloom \<and>
      bit bloom 15 \<and> bloom = 32768)"
proof -
  let ?E = "sample_encoder test_params 3" and ?v = "bytes_of ''foo''"
  have len: "nat (num_hashes (params ?E)) \<le> length (hash_output_of ?E ?v)"
    by (simp add: sample_hash_output) (simp add: sample_encoder_def test_params_def)
  from C3_bloom_filter_bits [OF sample_constructed len]
  obtain bloom where bloom: "MakeBloomFilter ?E ?v = Inr bloom"
    and bits: "\<And>i. bit bloom i \<longleftrightarrow>
        (\<exists>j < nat (num_hashes (params ?E)). uint (hash_output_of ?E ?v ! j) mod num_bits (params ?E) = int i)"
    by blast
  have "uint (hash_output_of ?E ?v ! 0) mod num_bits (params ?E) = int 15"
    by (simp add: sample_hash_output) (simp add: sample_encoder_def test_params_def)
  moreover have "0 < nat (num_hashes (params ?E))"
    by (simp add: sample_encoder_def test_params_def)
  ultimately have "bit bloom 15"
    unfolding bits by blast
  moreover have "bloom = 32768"
    using bloom sample_bloom by simp
  ultimately show ?thesis
    using sample_constructed len bloom by (simp add: sample_hash_output)
qed

text \<open>
  Claim C4 (Bloom filter hash input) as stated fails for a cohort of 256 or more: the
  constructor accepts cohort 300 of 1024, whose 4-byte big-endian encoding is 0, 0, 1,
  44, and the hash input starts with 0, 0, 0, 44.
\<close>

theorem C4_counterexample:
  "constructed (sample_encoder (test_params\<lparr>num_cohorts := 1024\<rparr>) 300) \<and>
   0 \<le> cohort (deps (sample_encoder (test_params\<lparr>num_cohorts := 1024\<rparr>) 300)) \<and>
   cohort (deps (sample_encoder (test_params\<lparr>num_cohorts := 1024\<rparr>) 300))
     < num_cohorts (params (sample_encoder (test_params\<lparr>num_cohorts := 1024\<rparr>) 300)) \<and>
   make_hash_input (cohort (deps (sample_encoder (test_params\<lparr>num_cohorts := 1024\<rparr>) 300)))
     (bytes_of ''foo'') = [0, 0, 0, 44, 102, 111, 111] \<and>
   big_endian4 (cohort (deps (sample_encoder (test_params\<lparr>num_cohorts := 1024\<rparr>) 300)))
     @ bytes_of ''foo'' = [0, 0, 1, 44, 102, 111, 111] \<and>
   make_hash_input (cohort (deps (sample_encoder (test_params\<lparr>num_cohorts := 1024\<rparr>) 300)))
     (bytes_of ''foo'') \<noteq>
   big_endian4 (cohort (deps (sample_encoder (test_params\<lparr>num_cohorts := 1024\<rparr>) 300)))
     @ bytes_of ''foo''"
  by (simp add: constructed_def sample_encoder_def Encoder_ctor_def test_params_def
      sample_deps_def CheckValidProbability_def kMaxBits_def kMaxHashes_def
      make_hash_input_eq big_endian4_def bytes_of_def)

text \<open>
  Claim C4, amended: for every value and every cohort in \<open>[0, num_cohorts)\<close> that is
  below 256 (the code assumes \<open>num_cohorts \<le> 256\<close>), the input passed to the hash
  function is the 4-byte big-endian encoding of the cohort followed by the value bytes.
\<close>

theorem C4_hash_input_cohort_below_256:
  assumes "constructed enc" and "0 \<le> cohort (deps enc)" and "cohort (deps enc) < 256"
  shows "make_hash_input (cohort (deps enc)) val = big_endian4 (cohort (deps enc)) @ val \<and>
     hash_output_of enc val = hash_func (deps enc) (big_endian4 (cohort (deps enc)) @ val)"
  using assms by (simp add: hash_output_of_def make_hash_input_eq big_endian4_small)

text \<open>Cohort 3 and the value "foo".\<close>

theorem C4_hash_input_cohort_below_256_witness:
  "constructed (sample_encoder test_params 3) \<and>
   0 \<le> cohort (deps (sample_encoder test_params 3)) \<and>
   cohort (deps (sample_encoder test_params 3)) < 256 \<and>
   make_hash_input (cohort (deps (sample_encoder test_params 3))) (bytes_of ''foo'') =
     [0, 0, 0, 3, 102, 111, 111] \<and>
   big_endian4 (cohort (deps (sample_encoder test_params 3))) @ bytes_of ''foo'' =
     [0, 0, 0, 3, 102, 111, 111]"
proof -
  let ?E = "sample_encoder test_params 3"
  have c: "0 \<le> cohort (deps ?E)" "cohort (deps ?E) < 256"
    by (simp_all add: sample_encoder_def sample_deps_def)
  have "big_endian4 (cohort (deps ?E)) @ bytes_of ''foo'' = [0, 0, 0, 3, 102, 111, 111]"
    by (simp add: sample_encoder_def sample_deps_def big_endian4_def bytes_of_def)
  with C4_hash_input_cohort_below_256 [OF sample_constructed c, of "bytes_of ''foo''"] c
    sample_constructed
  show ?thesis
    by simp
qed

text \<open>
  Claim C10 (cohort truncation equivalence): two cohorts that agree modulo 256, with the
  same parameters, value, secret, hash, HMAC and randomness source, give the same Bloom
  filter and the same result of \<^verbatim>\<open>Encode\<close>.
\<close>

theorem C10_cohort_low_byte:
  assumes "c1 mod 256 = c2 mod 256"
  shows "MakeBloomFilter (enc\<lparr>deps := (deps enc)\<lparr>cohort := c1\<rparr>\<rparr>) val =
         MakeBloomFilter (enc\<lparr>deps := (deps enc)\<lparr>cohort := c2\<rparr>\<rparr>) val \<and>
         Encode (enc\<lparr>deps := (deps enc)\<lparr>cohort := c1\<rparr>\<rparr>) rs val =
         Encode (enc\<lparr>deps := (deps enc)\<lparr>cohort := c2\<rparr>\<rparr>) rs val"
proof -
  have hi: "make_hash_input c1 val = make_hash_input c2 val"
    using assms by (simp add: make_hash_input_eq and_255_eq_mod)
  have bloom: "MakeBloomFilter (enc\<lparr>deps := (deps enc)\<lparr>cohort := c1\<rparr>\<rparr>) val =
         MakeBloomFilter (enc\<lparr>deps := (deps enc)\<lparr>cohort := c2\<rparr>\<rparr>) val"
    by (simp add: MakeBloomFilter_def hi Let_def cong: if_cong del: bloom_loop.simps)
  have prr: "GetPrrMasks (enc\<lparr>deps := (deps enc)\<lparr>cohort := c1\<rparr>\<rparr>) val =
         GetPrrMasks (enc\<lparr>deps := (deps enc)\<lparr>cohort := c2\<rparr>\<rparr>) val"
    by (simp add: GetPrrMasks_def Let_def cong: if_cong option.case_cong del: prr_loop.simps)
  have "EncodeInternal (enc\<lparr>deps := (deps enc)\<lparr>cohort := c1\<rparr>\<rparr>) rs val =
        EncodeInternal (enc\<lparr>deps := (deps enc)\<lparr>cohort := c2\<rparr>\<rparr>) rs val"
    unfolding EncodeInternal_def bloom prr
    by (simp add: Let_def cong: sum.case_cong prod.case_cong option.case_cong)
  with bloom show ?thesis
    by (simp add: Encode_def)
qed

text \<open>Cohorts 3 and 259 of 1024.\<close>

theorem C10_cohort_low_byte_witness:
  "(3 :: int) mod 256 = 259 mod 256 \<and>
   MakeBloomFilter (sample_encoder (test_params\<lparr>num_cohorts := 1024\<rparr>) 3) (bytes_of ''foo'') =
   MakeBloomFilter (sample_encoder (test_params\<lparr>num_cohorts := 1024\<rparr>) 259) (bytes_of ''foo'') \<and>
   Encode (sample_encoder (test_params\<lparr>num_cohorts := 1024\<rparr>) 3)
     [Some 0x0F0F0F0F, Some 0x33333333] (bytes_of ''foo'') =
   Encode (sample_encoder (test_params\<lparr>num_cohorts := 1024\<rparr>) 259)
     [Some 0x0F0F0F0F, Some 0x33333333] (bytes_of ''foo'')"
proof -
  let ?E = "sample_encoder (test_params\<lparr>num_cohorts := 1024\<rparr>) 3"
  have m: "(3 :: int) mod 256 = 259 mod 256"
    by simp
  have "?E\<lparr>deps := (deps ?E)\<lparr>cohort := 3\<rparr>\<rparr> = ?E"
    "?E\<lparr>deps := (deps ?E)\<lparr>cohort := 259\<rparr>\<rparr> = sample_encoder (test_params\<lparr>num_cohorts := 1024\<rparr>) 259"
    by (simp_all add: sample_encoder_def sample_deps_def)
  with C10_cohort_low_byte [OF m, of ?E "bytes_of ''foo''" "[Some 0x0F0F0F0F, Some 0x33333333]"] m
  show ?thesis
    by simp
qed

subsection \<open>Permanent randomized response\<close>

text \<open>
  Claim C1 (PRR derivation): for a constructed encoder whose \<open>prob_f\<close> is the number
  \<open>f\<close>, whenever the HMAC digest of secret and value has exactly 32 bytes,
  \<^verbatim>\<open>GetPrrMasks\<close> succeeds; for every position \<open>i < num_bits\<close> bit \<open>i\<close> of the
  uniform mask is the least significant bit of \<open>digest[i]\<close>, \<open>digest[i] >> 1\<close> is an
  integer in \<open>[0, 128)\<close>, and bit \<open>i\<close> of the noise mask is set if and only if that
  integer is strictly less than \<open>floor (f * 128)\<close>; and the PRR that \<^verbatim>\<open>_EncodeInternal\<close>
  writes is \<open>(bloom AND NOT f_mask) OR (uniform AND f_mask)\<close>.
\<close>

theorem C1_prr_derivation:
  assumes "constructed enc" and "prob_f (params enc) = FVal f"
    and "length (hmac_digest_of enc val) = 32"
  shows "\<exists>uniform f_mask. GetPrrMasks enc val = Inr (uniform, f_mask) \<and>
     (\<forall>i < nat (num_bits (params enc)).
        (bit uniform i \<longleftrightarrow> bit (hmac_digest_of enc val ! i) 0) \<and>
        0 \<le> uint (drop_bit 1 (hmac_digest_of enc val ! i)) \<and>
        uint (drop_bit 1 (hmac_digest_of enc val ! i)) < 128 \<and>
        (bit f_mask i \<longleftrightarrow> uint (drop_bit 1 (hmac_digest_of enc val ! i)) < \<lfloor>f * 128\<rfloor>)) \<and>
     (\<forall>bloom rs. MakeBloomFilter enc val = Inr bloom \<longrightarrow>
        prr_out (EncodeInternal enc rs val) =
          Some ((bloom AND NOT f_mask) OR (uniform AND f_mask)))"
proof -
  obtain uniform f_mask where masks: "GetPrrMasks enc val = Inr (uniform, f_mask)"
    using GetPrrMasks_constructed(1) [OF assms] by (metis surj_pair)
  have bits: "(bit uniform i \<longleftrightarrow> bit (hmac_digest_of enc val ! i) 0) \<and>
        0 \<le> uint (drop_bit 1 (hmac_digest_of enc val ! i)) \<and>
        uint (drop_bit 1 (hmac_digest_of enc val ! i)) < 128 \<and>
        (bit f_mask i \<longleftrightarrow> uint (drop_bit 1 (hmac_digest_of enc val ! i)) < \<lfloor>f * 128\<rfloor>)"
    if "i < nat (num_bits (params enc))" for i
  proof -
    from that have "int i < num_bits (params enc)"
      by simp
    then show ?thesis
      using GetPrrMasks_bits [OF assms(1,2) masks, of i] uint_shift_right_one
      by simp
  qed
  have prr: "prr_out (EncodeInternal enc rs val) =
          Some ((bloom AND NOT f_mask) OR (uniform AND f_mask))"
    if "MakeBloomFilter enc val = Inr bloom" for bloom rs
    using that masks by (simp add: EncodeInternal_def Let_def split: prod.splits option.splits)
  from masks bits prr show ?thesis
    by blast
qed

text \<open>The sample encoder, \<open>prob_f = 0.25\<close>, at positions 1 and 16.\<close>

theorem C1_prr_derivation_witness:
  "constructed (sample_encoder test_params 3) \<and>
   prob_f (params (sample_encoder test_params 3)) = FVal (1 / 4) \<and>
   length (hmac_digest_of (sample_encoder test_params 3) (bytes_of ''foo'')) = 32 \<and>
   (\<exists>uniform f_mask.
      GetPrrMasks (sample_encoder test_params 3) (bytes_of ''foo'') = Inr (uniform, f_mask) \<and>
      bit uniform 1 = bit (hmac_digest_of (sample_encoder test_params 3) (bytes_of ''foo'') ! 1) 0 \<and>
      bit f_mask 16 =
        (uint (drop_bit 1 (hmac_digest_of (sample_encoder test_params 3) (bytes_of ''foo'') ! 16))
          < \<lfloor>(1 / 4 :: real) * 128\<rfloor>) \<and>
      prr_out (EncodeInternal (sample_encoder test_params 3) [] (bytes_of ''foo'')) =
        Some ((32768 AND NOT f_mask) OR (uniform AND f_mask)))"
proof -
  let ?E = "sample_encoder test_params 3" and ?v = "bytes_of ''foo''"
  have len: "length (hmac_digest_of ?E ?v) = 32"
    by (simp add: sample_hmac_digest)
  have nb: "1 < nat (num_bits (params ?E))" "16 < nat (num_bits (params ?E))"
    by (simp_all add: sample_encoder_def test_params_def)
  from C1_prr_derivation [OF sample_constructed sample_prob_f len]
  obtain uniform f_mask where "GetPrrMasks ?E ?v = Inr (uniform, f_mask)"
    and "\<forall>i < nat (num_bits (params ?E)).
        (bit uniform i \<longleftrightarrow> bit (hmac_digest_of ?E ?v ! i) 0) \<and>
        0 \<le> uint (drop_bit 1 (hmac_digest_of ?E ?v ! i)) \<and>
        uint (drop_bit 1 (hmac_digest_of ?E ?v ! i)) < 128 \<and>
        (bit f_mask i \<longleftrightarrow> uint (drop_bit 1 (hmac_digest_of ?E ?v ! i)) < \<lfloor>(1 / 4 :: real) * 128\<rfloor>)"
    and "\<forall>bloom rs. MakeBloomFilter ?E ?v = Inr bloom \<longrightarrow>
        prr_out (EncodeInternal ?E rs ?v) = Some ((bloom AND NOT f_mask) OR (uniform AND f_mask))"
    by blast
  with nb sample_bloom sample_constructed sample_prob_f len show ?thesis
    by blast
qed

subsection \<open>Instantaneous randomized response\<close>

text \<open>
  Claim C2 (IRR derivation): for every successful call of \<^verbatim>\<open>Encode\<close>, with \<open>p_bits\<close>
  drawn first, for \<open>prob_p\<close>, and \<open>q_bits\<close> drawn second, for \<open>prob_q\<close>, from the
  state the first draw left, both for width \<open>num_bits\<close>, the output is
  \<open>(p_bits AND NOT prr) OR (q_bits AND prr)\<close>.
\<close>

theorem C2_irr_derivation:
  assumes "Encode enc rs val = (None, out, rs2)"
  shows "\<exists>prr p_bits q_bits rs1.
     prr_out (EncodeInternal enc rs val) = Some prr \<and>
     irr_rand_GetMask (deps enc) rs (prob_p (params enc)) (num_bits (params enc)) = (Some p_bits, rs1) \<and>
     irr_rand_GetMask (deps enc) rs1 (prob_q (params enc)) (num_bits (params enc)) = (Some q_bits, rs2) \<and>
     out = Some ((p_bits AND NOT prr) OR (q_bits AND prr))"
  using assms
  by (auto simp: Encode_def EncodeInternal_def Let_def split: sum.splits prod.splits option.splits)

text \<open>A run of the sample encoder on two masks.\<close>

theorem C2_irr_derivation_witness:
  "Encode (sample_encoder test_params 3) [Some 0x0F0F0F0F, Some 0x33333333] (bytes_of ''foo'') =
     (None, Some 118165263, []) \<and>
   (\<exists>prr p_bits q_bits rs1.
      prr_out (EncodeInternal (sample_encoder test_params 3) [Some 0x0F0F0F0F, Some 0x33333333]
        (bytes_of ''foo'')) = Some prr \<and>
      irr_rand_GetMask (deps (sample_encoder test_params 3)) [Some 0x0F0F0F0F, Some 0x33333333]
        (prob_p (params (sample_encoder test_params 3)))
        (num_bits (params (sample_encoder test_params 3))) = (Some p_bits, rs1) \<and>
      irr_rand_GetMask (deps (sample_encoder test_params 3)) rs1
        (prob_q (params (sample_encoder test_params 3)))
        (num_bits (params (sample_encoder test_params 3))) = (Some q_bits, []) \<and>
      Some (118165263 :: Bits) = Some ((p_bits AND NOT prr) OR (q_bits AND prr)))"
proof -
  have run: "Encode (sample_encoder test_params 3) [Some 0x0F0F0F0F, Some 0x33333333] (bytes_of ''foo'') =
     (None, Some 118165263, [])"
    by (simp add: Encode_def sample_run)
  from C2_irr_derivation [OF run] run show ?thesis
    by blast
qed

text \<open>
  Claim C5 (PRR determinism): two encoders with the same parameters, cohort, hash
  function, secret and HMAC function write the same PRR for a value, whatever their
  randomness sources and the states of these are: the PRR is a function of secret,
  value, cohort and parameters only. The IRR stage draws on every call that reaches it:
  the state of the source after the call is the state after the draws made from the
  state at the call.
\<close>

theorem C5_prr_deterministic:
  fixes enc1 :: "'r Encoder" and enc2 :: "'s Encoder"
  assumes "params enc1 = params enc2"
    and "cohort (deps enc1) = cohort (deps enc2)"
    and "hash_func (deps enc1) = hash_func (deps enc2)"
    and "client_secret (deps enc1) = client_secret (deps enc2)"
    and "hmac_func (deps enc1) = hmac_func (deps enc2)"
  shows "prr_out (EncodeInternal enc1 rs1 val) = prr_out (EncodeInternal enc2 rs2 val) \<and>
     (prr_out (EncodeInternal enc1 rs1 val) \<noteq> None \<longrightarrow>
        (case irr_rand_GetMask (deps enc1) rs1 (prob_p (params enc1)) (num_bits (params enc1)) of
           (None, r) \<Rightarrow> rand_after (EncodeInternal enc1 rs1 val) = r
         | (Some p_bits, r) \<Rightarrow> rand_after (EncodeInternal enc1 rs1 val) =
             snd (irr_rand_GetMask (deps enc1) r (prob_q (params enc1)) (num_bits (params enc1)))))"
proof -
  have bloom: "MakeBloomFilter enc1 val = MakeBloomFilter enc2 val"
    using assms by (simp add: MakeBloomFilter_def Let_def cong: if_cong del: bloom_loop.simps)
  have masks: "GetPrrMasks enc1 val = GetPrrMasks enc2 val"
    using assms
    by (simp add: GetPrrMasks_def Let_def cong: if_cong option.case_cong del: prr_loop.simps)
  have "prr_out (EncodeInternal enc1 rs1 val) = prr_out (EncodeInternal enc2 rs2 val)"
    unfolding EncodeInternal_def bloom masks
    by (simp add: Let_def split: sum.splits prod.splits option.splits)
  moreover have "prr_out (EncodeInternal enc1 rs1 val) \<noteq> None \<longrightarrow>
        (case irr_rand_GetMask (deps enc1) rs1 (prob_p (params enc1)) (num_bits (params enc1)) of
           (None, r) \<Rightarrow> rand_after (EncodeInternal enc1 rs1 val) = r
         | (Some p_bits, r) \<Rightarrow> rand_after (EncodeInternal enc1 rs1 val) =
             snd (irr_rand_GetMask (deps enc1) r (prob_q (params enc1)) (num_bits (params enc1))))"
    by (simp add: EncodeInternal_def Let_def split: sum.splits prod.splits option.splits)
  ultimately show ?thesis
    by blast
qed

text \<open>
  The same PRR with a source that always fails and with two different lists of masks,
  and two different IRRs for the two lists.
\<close>

lemma sample_run_other_masks:
  "EncodeInternal (sample_encoder test_params 3) [Some 0, Some 0xFFFFFFFF] (bytes_of ''foo'') =
     \<lparr>status = None, bloom_out = Some 32768, prr_out = Some 1241874944,
      irr_out = Some 1241874944, rand_after = []\<rparr>"
  by (simp add: EncodeInternal_def sample_bloom sample_masks)
    (simp add: sample_encoder_def test_params_def sample_deps_def)

theorem C5_prr_deterministic_witness:
  "params (sample_encoder test_params 3) = params starved_encoder \<and>
   cohort (deps (sample_encoder test_params 3)) = cohort (deps starved_encoder) \<and>
   hash_func (deps (sample_encoder test_params 3)) = hash_func (deps starved_encoder) \<and>
   client_secret (deps (sample_encoder test_params 3)) = client_secret (deps starved_encoder) \<and>
   hmac_func (deps (sample_encoder test_params 3)) = hmac_func (deps starved_encoder) \<and>
   prr_out (EncodeInternal starved_encoder () (bytes_of ''foo'')) = Some 1241874944 \<and>
   prr_out (EncodeInternal (sample_encoder test_params 3) [Some 0, Some 0xFFFFFFFF] (bytes_of ''foo''))
     = Some 1241874944 \<and>
   prr_out (EncodeInternal (sample_encoder test_params 3) [Some 0x0F0F0F0F, Some 0x33333333]
     (bytes_of ''foo'')) = Some 1241874944 \<and>
   irr_out (EncodeInternal (sample_encoder test_params 3) [Some 0, Some 0xFFFFFFFF] (bytes_of ''foo''))
     = Some 1241874944 \<and>
   irr_out (EncodeInternal (sample_encoder test_params 3) [Some 0x0F0F0F0F, Some 0x33333333]
     (bytes_of ''foo'')) = Some 118165263 \<and>
   rand_after (EncodeInternal (sample_encoder test_params 3) [Some 0x0F0F0F0F, Some 0x33333333, Some 5]
     (bytes_of ''foo'')) = [Some 5]"
proof -
  let ?E = "sample_encoder test_params 3" and ?v = "bytes_of ''foo''"
  have same: "params ?E = params starved_encoder"
    "cohort (deps ?E) = cohort (deps starved_encoder)"
    "hash_func (deps ?E) = hash_func (deps starved_encoder)"
    "client_secret (deps ?E) = client_secret (deps starved_encoder)"
    "hmac_func (deps ?E) = hmac_func (deps starved_encoder)"
    by (simp_all add: sample_encoder_def sample_deps_def starved_encoder_def)
  note det = C5_prr_deterministic [OF same]
  have prr: "prr_out (EncodeInternal ?E [Some 0x0F0F0F0F, Some 0x33333333, Some 5] ?v) = Some 1241874944"
    using det [of "[Some 0x0F0F0F0F, Some 0x33333333, Some 5]" ?v "()"] det [of "[Some 0x0F0F0F0F, Some 0x33333333]" ?v "()"]
    by (simp add: sample_run)
  have "rand_after (EncodeInternal ?E [Some 0x0F0F0F0F, Some 0x33333333, Some 5] ?v) = [Some 5]"
    using det [of "[Some 0x0F0F0F0F, Some 0x33333333, Some 5]" ?v "()"] prr
    by (simp add: sample_encoder_def sample_deps_def)
  moreover have "prr_out (EncodeInternal starved_encoder () ?v) = Some 1241874944"
    using det [of "[Some 0x0F0F0F0F, Some 0x33333333]" ?v "()"] by (simp add: sample_run)
  ultimately show ?thesis
    using same by (simp add: sample_run sample_run_other_masks)
qed

subsection \<open>Operational faults\<close>

text \<open>
  Claim C7 (operational fault propagation): for a constructed encoder whose \<open>prob_f\<close>
  is not a NaN, a call of \<^verbatim>\<open>Encode\<close> fails exactly when the hash function returns
  fewer than \<open>num_hashes\<close> bytes, or the HMAC digest does not have 32 bytes, or one of
  the two draws fails; a failed call writes nothing through \<^verbatim>\<open>irr_out\<close>, a successful
  one does. The encoder is not changed by a call (\<^verbatim>\<open>Encode\<close> is a const member
  function, and the model returns no encoder); the randomness source is not part of it,
  and a call that fails at the second draw has consumed the first. The encoder remains
  usable: whether the call that follows, from the state the source is left in, fails is
  decided in the same way.
\<close>

theorem C7_operational_faults:
  assumes "constructed enc" and "prob_f (params enc) \<noteq> FNaN"
  shows "(fst (Encode enc rs val) \<noteq> None \<longleftrightarrow> operational_fault enc rs val) \<and>
     (fst (Encode enc rs val) \<noteq> None \<longrightarrow> fst (snd (Encode enc rs val)) = None) \<and>
     (fst (Encode enc rs val) = None \<longrightarrow> fst (snd (Encode enc rs val)) \<noteq> None) \<and>
     fst (Encode enc rs val) \<noteq> Some UndefinedCast \<and>
     (fst (Encode enc (snd (snd (Encode enc rs val))) val') \<noteq> None \<longleftrightarrow>
        operational_fault enc (snd (snd (Encode enc rs val))) val')"
proof -
  have call: "(fst (Encode enc rs val) \<noteq> None \<longleftrightarrow> operational_fault enc rs val) \<and>
     (fst (Encode enc rs val) \<noteq> None \<longrightarrow> fst (snd (Encode enc rs val)) = None) \<and>
     (fst (Encode enc rs val) = None \<longrightarrow> fst (snd (Encode enc rs val)) \<noteq> None) \<and>
     fst (Encode enc rs val) \<noteq> Some UndefinedCast" for rs val
  proof -
    let ?p = "irr_rand_GetMask (deps enc) rs (prob_p (params enc)) (num_bits (params enc))"
    consider
      (hash) "MakeBloomFilter enc val = Inl HashTooFewBytes"
        "length (hash_output_of enc val) < nat (num_hashes (params enc))"
    | (hmac) b where "MakeBloomFilter enc val = Inr b"
        "\<not> length (hash_output_of enc val) < nat (num_hashes (params enc))"
        "GetPrrMasks enc val = Inl HmacWrongSize" "length (hmac_digest_of enc val) \<noteq> 32"
    | (draw) b m where "MakeBloomFilter enc val = Inr b"
        "\<not> length (hash_output_of enc val) < nat (num_hashes (params enc))"
        "GetPrrMasks enc val = Inr m" "length (hmac_digest_of enc val) = 32"
      using MakeBloomFilter_cases [OF assms(1), of val] GetPrrMasks_defined [OF assms, of val]
      by blast
    then show ?thesis
    proof cases
      case hash
      then show ?thesis
        by (simp add: Encode_def EncodeInternal_def operational_fault_def Let_def)
    next
      case hmac
      then show ?thesis
        by (simp add: Encode_def EncodeInternal_def operational_fault_def Let_def)
    next
      case draw
      obtain u f where m: "m = (u, f)"
        by (cases m)
      obtain mp rp where p: "?p = (mp, rp)"
        by (cases ?p)
      obtain mq rq
        where q: "irr_rand_GetMask (deps enc) rp (prob_q (params enc)) (num_bits (params enc)) = (mq, rq)"
        by (metis surj_pair)
      from draw m p q show ?thesis
        by (cases mp; cases mq)
          (simp_all add: Encode_def EncodeInternal_def operational_fault_def Let_def)
    qed
  qed
  from call [of rs val] call [of "snd (snd (Encode enc rs val))" val'] show ?thesis
    by blast
qed

text \<open>
  The sample encoder with a script whose second draw fails: the call fails and writes
  nothing, and the call that follows, on the rest of the script, succeeds.
\<close>

theorem C7_operational_faults_witness:
  "constructed (sample_encoder test_params 3) \<and>
   prob_f (params (sample_encoder test_params 3)) \<noteq> FNaN \<and>
   operational_fault (sample_encoder test_params 3)
     [Some 0x0F0F0F0F, None, Some 0x0F0F0F0F, Some 0x33333333] (bytes_of ''foo'') \<and>
   Encode (sample_encoder test_params 3)
     [Some 0x0F0F0F0F, None, Some 0x0F0F0F0F, Some 0x33333333] (bytes_of ''foo'') =
     (Some QMaskFailed, None, [Some 0x0F0F0F0F, Some 0x33333333]) \<and>
   Encode (sample_encoder test_params 3) [Some 0x0F0F0F0F, Some 0x33333333] (bytes_of ''foo'') =
     (None, Some 118165263, [])"
proof -
  let ?E = "sample_encoder test_params 3" and ?v = "bytes_of ''foo''"
  let ?rs = "[Some 0x0F0F0F0F, None, Some 0x0F0F0F0F, Some 0x33333333] :: Bits option list"
  have f: "prob_f (params ?E) \<noteq> FNaN"
    by (simp add: sample_prob_f)
  have fault: "operational_fault ?E ?rs ?v"
    by (simp add: operational_fault_def sample_hash_output sample_hmac_digest)
      (simp add: sample_encoder_def sample_deps_def test_params_def)
  have after: "snd (snd (Encode ?E ?rs ?v)) = [Some 0x0F0F0F0F, Some 0x33333333]"
    by (simp add: Encode_def EncodeInternal_def sample_bloom sample_masks)
      (simp add: sample_encoder_def sample_deps_def)
  have no_fault: "\<not> operational_fault ?E [Some 0x0F0F0F0F, Some 0x33333333] ?v"
    by (simp add: operational_fault_def sample_hash_output sample_hmac_digest)
      (simp add: sample_encoder_def sample_deps_def test_params_def)
  note c7 = C7_operational_faults [OF sample_constructed f, of ?rs ?v ?v, unfolded after]
  from c7 fault have failed: "fst (Encode ?E ?rs ?v) \<noteq> None" "fst (snd (Encode ?E ?rs ?v)) = None"
    by blast+
  from c7 no_fault have next_call: "fst (Encode ?E [Some 0x0F0F0F0F, Some 0x33333333] ?v) = None"
    by blast
  have "fst (Encode ?E ?rs ?v) = Some QMaskFailed"
    by (simp add: Encode_def EncodeInternal_def sample_bloom sample_masks)
      (simp add: sample_encoder_def sample_deps_def)
  with failed after have first: "Encode ?E ?rs ?v = (Some QMaskFailed, None, [Some 0x0F0F0F0F, Some 0x33333333])"
    by (metis prod.collapse)
  from sample_constructed f fault first next_call show ?thesis
    by (simp add: Encode_def sample_run)
qed

subsection \<open>Width of the masks\<close>

text \<open>
  Claim C8 (bounded width invariant): for a constructed encoder whose \<open>prob_f\<close> is not
  a NaN and whose randomness source returns masks of width \<open>num_bits\<close>, none of the
  Bloom filter, the PRR and the IRR that a call writes has a bit at a position
  \<open>i \<ge> num_bits\<close>.
\<close>

theorem C8_bounded_width:
  assumes "constructed enc" and "prob_f (params enc) \<noteq> FNaN"
    and "masks_within_width enc"
    and "nat (num_bits (params enc)) \<le> i"
  shows "(\<forall>b. bloom_out (EncodeInternal enc rs val) = Some b \<longrightarrow> \<not> bit b i) \<and>
     (\<forall>p. prr_out (EncodeInternal enc rs val) = Some p \<longrightarrow> \<not> bit p i) \<and>
     (\<forall>q. irr_out (EncodeInternal enc rs val) = Some q \<longrightarrow> \<not> bit q i)"
proof -
  obtain f where f: "prob_f (params enc) = FVal f"
    using assms(1,2) by (rule constructed_prob_f)
  have i: "\<not> int i < num_bits (params enc)"
    using assms(4) by simp
  have bloom: "\<not> bit b i" if "bloom_out (EncodeInternal enc rs val) = Some b" for b
    using MakeBloomFilter_width [OF assms(1) EncodeInternal_bloom_out [OF that] assms(4)] .
  have prr: "\<not> bit p i" if "prr_out (EncodeInternal enc rs val) = Some p" for p
  proof -
    from EncodeInternal_prr_out [OF that] obtain b u m
      where b: "MakeBloomFilter enc val = Inr b" and um: "GetPrrMasks enc val = Inr (u, m)"
        and p: "p = (b AND NOT m) OR (u AND m)"
      by blast
    have "\<not> bit b i"
      using MakeBloomFilter_width [OF assms(1) b assms(4)] .
    moreover have "\<not> bit u i"
      using GetPrrMasks_bits(1) [OF assms(1) f um, of i] i by simp
    ultimately show ?thesis
      by (simp add: p bit_or_iff bit_and_iff)
  qed
  have irr: "\<not> bit q i" if "irr_out (EncodeInternal enc rs val) = Some q" for q
  proof -
    from EncodeInternal_irr_out [OF that] obtain pr p_bits q_bits r1 r2
      where "irr_rand_GetMask (deps enc) rs (prob_p (params enc)) (num_bits (params enc))
          = (Some p_bits, r1)"
        and "irr_rand_GetMask (deps enc) r1 (prob_q (params enc)) (num_bits (params enc))
          = (Some q_bits, r2)"
        and q: "q = (p_bits AND NOT pr) OR (q_bits AND pr)"
      by blast
    then have "\<not> bit p_bits i" "\<not> bit q_bits i"
      using assms(3,4) unfolding masks_within_width_def by blast+
    then show ?thesis
      by (simp add: q bit_or_iff bit_and_iff)
  qed
  from bloom prr irr show ?thesis
    by blast
qed

text \<open>An encoder of width 8 whose source is offered two masks of 32 ones.\<close>

lemma sample_masks_within_width: "masks_within_width (sample_encoder ps c)"
proof -
  have "\<not> bit m k"
    if "sample_GetMask s prob (num_bits ps) = (Some m, s')" and "nat (num_bits ps) \<le> k"
    for s prob m s' k
    using that by (cases "(s, prob, num_bits ps)" rule: sample_GetMask.cases)
      (auto simp: bit_take_bit_iff)
  then show ?thesis
    unfolding masks_within_width_def by (simp add: sample_encoder_def sample_deps_def)
qed

lemma narrow_constructed: "constructed (sample_encoder (test_params\<lparr>num_bits := 8\<rparr>) 3)"
  by (simp add: constructed_def sample_encoder_def Encoder_ctor_def test_params_def
      sample_deps_def CheckValidProbability_def kMaxBits_def kMaxHashes_def)

lemma narrow_run:
  "EncodeInternal (sample_encoder (test_params\<lparr>num_bits := 8\<rparr>) 3) [Some 0xFFFFFFFF, Some 0xFFFFFFFF]
     (bytes_of ''foo'') =
     \<lparr>status = None, bloom_out = Some 128, prr_out = Some 128, irr_out = Some 255,
      rand_after = []\<rparr>"
  by (simp add: EncodeInternal_def MakeBloomFilter_def GetPrrMasks_def make_hash_input_eq
      sample_encoder_def test_params_def sample_deps_def sample_hash_def sample_hmac_def
      bytes_of_def size_t_of_int_def kMaxBits_def trunc_toward_zero_def)

theorem C8_bounded_width_witness:
  "constructed (sample_encoder (test_params\<lparr>num_bits := 8\<rparr>) 3) \<and>
   prob_f (params (sample_encoder (test_params\<lparr>num_bits := 8\<rparr>) 3)) \<noteq> FNaN \<and>
   masks_within_width (sample_encoder (test_params\<lparr>num_bits := 8\<rparr>) 3) \<and>
   nat (num_bits (params (sample_encoder (test_params\<lparr>num_bits := 8\<rparr>) 3))) \<le> 8 \<and>
   irr_out (EncodeInternal (sample_encoder (test_params\<lparr>num_bits := 8\<rparr>) 3)
     [Some 0xFFFFFFFF, Some 0xFFFFFFFF] (bytes_of ''foo'')) = Some 255 \<and>
   \<not> bit (255 :: Bits) 8 \<and> \<not> bit (128 :: Bits) 8"
proof -
  let ?E = "sample_encoder (test_params\<lparr>num_bits := 8\<rparr>) 3"
  have f: "prob_f (params ?E) \<noteq> FNaN"
    by (simp add: sample_encoder_def test_params_def)
  have w: "nat (num_bits (params ?E)) \<le> 8"
    by (simp add: sample_encoder_def test_params_def)
  from C8_bounded_width [OF narrow_constructed f sample_masks_within_width w,
      of "[Some 0xFFFFFFFF, Some 0xFFFFFFFF]" "bytes_of ''foo''"]
  have "\<not> bit (255 :: Bits) 8" "\<not> bit (128 :: Bits) 8"
    unfolding narrow_run by simp_all
  with narrow_constructed f sample_masks_within_width w show ?thesis
    by (simp add: narrow_run)
qed

end
